theory Spec2Isabelle
  imports Main "HOL-Library.Word"
begin

section \<open>The encoding detector of directory-serialization\<close>

text \<open>
  A shallow embedding of \<^verbatim>\<open>detector/detector.go\<close>: the staged classifier
  \<^verbatim>\<open>EncodingDetector\<close> (BOM, null bytes, script heuristics, UTF-8 validity) and the
  quick predicate \<^verbatim>\<open>IsText\<close>. A Go \<^verbatim>\<open>[]byte\<close> is a list of 8-bit words, a Go
  \<^verbatim>\<open>int\<close> is an \<open>int\<close> (no counter of the file can come near the 64-bit range: each
  is bounded by the length of the slice plus ten), and a read \<^verbatim>\<open>ptr[i]\<close> is the checked
  read \<open>at_index\<close>, whose \<open>None\<close> is Go's index-out-of-range panic. A function that
  reads by index therefore returns an \<open>option\<close>.
\<close>

subsection \<open>Data model\<close>

type_synonym byte = "8 word"

datatype EncodingChoiceSource =
  DefaultEncoding | AutoDetectedEncoding | BOM
  | EncodingFromXMLHeader | EncodingFromMetaTag | UserChosenEncoding

text \<open>The member \<^verbatim>\<open>None\<close> of the Go enumeration is \<open>None_script\<close> here.\<close>

datatype AutoDetectScript =
  None_script | Arabic | Baltic | CentralEuropean | ChineseSimplified
  | ChineseTraditional | Cyrillic | Greek | Hebrew | Japanese | Korean
  | Turkish | WesternEuropean | Unicode

record DetectorResult =
  Encoding :: string
  Source :: EncodingChoiceSource
  Script :: AutoDetectScript
  IsBinary :: bool

definition maxBuffer :: int where
  "maxBuffer = 16 * 1024"

subsection \<open>Go's library functions and index reads\<close>

text \<open>\<^verbatim>\<open>ptr[i]\<close>: the byte at index \<open>i\<close>, or the panic.\<close>

definition at_index :: "byte list \<Rightarrow> int \<Rightarrow> byte option" where
  "at_index xs i = (if 0 \<le> i \<and> i < int (length xs) then Some (xs ! nat i) else None)"

text \<open>\<^verbatim>\<open>bytes.HasPrefix\<close> and \<^verbatim>\<open>bytes.Contains\<close> of Go's standard library.\<close>

definition bytes_HasPrefix :: "byte list \<Rightarrow> byte list \<Rightarrow> bool" where
  "bytes_HasPrefix s p = (length p \<le> length s \<and> take (length p) s = p)"

fun bytes_Contains :: "byte list \<Rightarrow> byte list \<Rightarrow> bool" where
  "bytes_Contains [] sub = (sub = [])"
| "bytes_Contains (x # xs) sub = (bytes_HasPrefix (x # xs) sub \<or> bytes_Contains xs sub)"

text \<open>
  \<^verbatim>\<open>utf8.Valid\<close> of Go's standard library, after its tables \<^verbatim>\<open>first\<close> and
  \<^verbatim>\<open>acceptRanges\<close>: for a lead byte, the length of its sequence and the range accepted
  for the second byte; every later byte of a sequence lies in \<open>0x80..0xBF\<close>.
\<close>

definition utf8_first :: "byte \<Rightarrow> (nat \<times> byte \<times> byte) option" where
  "utf8_first b =
     (if 0xC2 \<le> b \<and> b \<le> 0xDF then Some (2, 0x80, 0xBF)
      else if b = 0xE0 then Some (3, 0xA0, 0xBF)
      else if 0xE1 \<le> b \<and> b \<le> 0xEC then Some (3, 0x80, 0xBF)
      else if b = 0xED then Some (3, 0x80, 0x9F)
      else if 0xEE \<le> b \<and> b \<le> 0xEF then Some (3, 0x80, 0xBF)
      else if b = 0xF0 then Some (4, 0x90, 0xBF)
      else if 0xF1 \<le> b \<and> b \<le> 0xF3 then Some (4, 0x80, 0xBF)
      else if b = 0xF4 then Some (4, 0x80, 0x8F)
      else None)"

definition utf8_cont :: "byte \<Rightarrow> bool" where
  "utf8_cont c = (0x80 \<le> c \<and> c \<le> 0xBF)"

fun utf8_Valid :: "byte list \<Rightarrow> bool" where
  "utf8_Valid [] = True"
| "utf8_Valid (b # rest) =
     (if b < 0x80 then utf8_Valid rest
      else case utf8_first b of
        None \<Rightarrow> False
      | Some (n, lo, hi) \<Rightarrow>
          (case rest of
             [] \<Rightarrow> False
           | c # rest' \<Rightarrow>
               n - 2 \<le> length rest' \<and> lo \<le> c \<and> c \<le> hi
               \<and> list_all utf8_cont (take (n - 2) rest')
               \<and> utf8_Valid (drop (n - 2) rest')))"

subsection \<open>The binary check and the BOM scanner\<close>

definition isBinary :: "byte list \<Rightarrow> bool" where
  "isBinary data =
     (let checkLen = int (length data);
          checkLen = (if checkLen > 8000 then 8000 else checkLen)
      in bytes_Contains (take (nat checkLen) data) [0])"

definition errorsIfUtf8 :: "byte list \<Rightarrow> bool" where
  "errorsIfUtf8 data = (\<not> utf8_Valid data)"

definition checkBOM :: "byte list \<Rightarrow> string \<times> bool" where
  "checkBOM data =
     (if bytes_HasPrefix data [0xEF, 0xBB, 0xBF] then (''UTF-8-BOM'', True)
      else if bytes_HasPrefix data [0xFE, 0xFF] then (''UTF-16BE'', True)
      else if bytes_HasPrefix data [0xFF, 0xFE] then (''UTF-16LE'', True)
      else ('''', False))"

definition IsText :: "byte list \<Rightarrow> bool" where
  "IsText data = (if length data = 0 then True else \<not> isBinary data)"

subsection \<open>The Western European heuristic\<close>

text \<open>
  The loop \<^verbatim>\<open>for i := 0; i < size-1; i++\<close> with its two early returns; after the loop
  the answer depends on \<^verbatim>\<open>nonANSICount\<close>. The second byte \<^verbatim>\<open>ptr[i+1]\<close> is read only
  when the two tests on \<^verbatim>\<open>ptr[i]\<close> before it hold, as Go's \<^verbatim>\<open>&&\<close> evaluates.
\<close>

function we_loop :: "byte list \<Rightarrow> int \<Rightarrow> int \<Rightarrow> string option" where
  "we_loop ptr i nonANSICount =
     (if i < int (length ptr) - 1 then
        (case at_index ptr i of
           None \<Rightarrow> None
         | Some p \<Rightarrow>
             if p > 0x79 then
               (case (if p > 0xc1 \<and> p < 0xf0 then at_index ptr (i + 1) else Some 0) of
                  None \<Rightarrow> None
                | Some q \<Rightarrow>
                    if p > 0xc1 \<and> p < 0xf0 \<and> q > 0x7f \<and> q < 0xc0 then Some ''UTF-8''
                    else if p \<ge> 0x78 \<and> p \<le> 0x9F then Some ''cp1252''
                    else we_loop ptr (i + 1) (nonANSICount + 1))
             else we_loop ptr (i + 1) nonANSICount)
      else if nonANSICount > 0 then Some ''iso-8859-15''
      else Some '''')"
  by pat_completeness auto
termination
  by (relation "measure (\<lambda>(ptr, i, n). nat (int (length ptr) - 1 - i))") auto

declare we_loop.simps [simp del]

definition automaticDetectionForWesternEuropean :: "byte list \<Rightarrow> string option" where
  "automaticDetectionForWesternEuropean ptr =
     (let size = int (length ptr)
      in if size = 0 then Some '''' else we_loop ptr 0 0)"

subsection \<open>The Cyrillic heuristic\<close>

record cyr_counts =
  utf8Mark :: int
  koiScore :: int
  cp1251Score :: int
  koiSt :: int
  cp1251St :: int
  cp1251SmallRange :: int
  koiSmallRange :: int
  ibm866SmallRange :: int

definition cyr_zero :: cyr_counts where
  "cyr_zero = \<lparr>utf8Mark = 0, koiScore = 0, cp1251Score = 0, koiSt = 0, cp1251St = 0,
               cp1251SmallRange = 0, koiSmallRange = 0, ibm866SmallRange = 0\<rparr>"

text \<open>
  The body of the loop at index \<open>i\<close>, where \<open>p\<close> is \<^verbatim>\<open>ptr[i]\<close>. The byte before,
  \<^verbatim>\<open>ptr[i-1]\<close>, is read only after \<^verbatim>\<open>p == 0xf2\<close> or \<^verbatim>\<open>p == 0xd4\<close>.
\<close>

definition cyr_body :: "byte list \<Rightarrow> int \<Rightarrow> byte \<Rightarrow> cyr_counts \<Rightarrow> cyr_counts option" where
  "cyr_body ptr i p c =
     (if p > 0xdf then
        (let c = c\<lparr>cp1251SmallRange := cp1251SmallRange c + 1\<rparr>
         in if p = 0xee then Some (c\<lparr>cp1251Score := cp1251Score c + 1\<rparr>)
            else if p = 0xf2 then
              (case at_index ptr (i - 1) of
                 None \<Rightarrow> None
               | Some q \<Rightarrow> if q = 0xf1 then Some (c\<lparr>cp1251St := cp1251St c + 1\<rparr>) else Some c)
            else Some c)
      else if p > 0xbf then
        (let c = c\<lparr>koiSmallRange := koiSmallRange c + 1\<rparr>;
             c = (if p = 0xd0 \<or> p = 0xd1 then c\<lparr>utf8Mark := utf8Mark c + 1\<rparr> else c)
         in if p = 0xcf then Some (c\<lparr>koiScore := koiScore c + 1\<rparr>)
            else if p = 0xd4 then
              (case at_index ptr (i - 1) of
                 None \<Rightarrow> None
               | Some q \<Rightarrow> if q = 0xd3 then Some (c\<lparr>koiSt := koiSt c + 1\<rparr>) else Some c)
            else Some c)
      else if p > 0x9f \<and> p < 0xb0 then
        Some (c\<lparr>ibm866SmallRange := ibm866SmallRange c + 1\<rparr>)
      else Some c)"

function cyr_loop :: "byte list \<Rightarrow> int \<Rightarrow> int \<Rightarrow> cyr_counts \<Rightarrow> cyr_counts option" where
  "cyr_loop ptr limit i c =
     (if i < limit then
        (case at_index ptr i of
           None \<Rightarrow> None
         | Some p \<Rightarrow>
             (case cyr_body ptr i p c of
                None \<Rightarrow> None
              | Some c' \<Rightarrow> cyr_loop ptr limit (i + 1) c'))
      else Some c)"
  by pat_completeness auto
termination
  by (relation "measure (\<lambda>(ptr, limit, i, c). nat (limit - i))") auto

declare cyr_loop.simps [simp del]

text \<open>What follows the loop: the threshold of 8, the three comparisons and the bonus.\<close>

definition cyr_decide :: "cyr_counts \<Rightarrow> string" where
  "cyr_decide c =
     (if cp1251SmallRange c + koiSmallRange c + ibm866SmallRange c < 8 then ''''
      else if 3 * utf8Mark c > cp1251SmallRange c + koiSmallRange c + ibm866SmallRange c
        then ''UTF-8''
      else if ibm866SmallRange c > cp1251SmallRange c + koiSmallRange c then ''ibm866''
      else
        (let c = (if cp1251St c = 0 \<and> koiSt c > 1 then c\<lparr>koiScore := koiScore c + 10\<rparr>
                  else if koiSt c = 0 \<and> cp1251St c > 1
                    then c\<lparr>cp1251Score := cp1251Score c + 10\<rparr>
                  else c)
         in if cp1251Score c > koiScore c then ''cp1251'' else ''koi8-u''))"

definition cyr_limit :: "byte list \<Rightarrow> int" where
  "cyr_limit ptr =
     (let size = int (length ptr);
          limit = size
      in if cp1251SmallRange cyr_zero + koiSmallRange cyr_zero < 1000
         then (if limit > 1000 then 1000 else limit)
         else limit)"

definition automaticDetectionForCyrillic :: "byte list \<Rightarrow> string option" where
  "automaticDetectionForCyrillic ptr =
     (case cyr_loop ptr (cyr_limit ptr) 1 cyr_zero of
        None \<Rightarrow> None
      | Some c \<Rightarrow> Some (cyr_decide c))"

subsection \<open>The Japanese heuristic\<close>

text \<open>
  Modelled from the spec: the Japanese sub-engine (\<^verbatim>\<open>newJapaneseCode\<close>,
  \<^verbatim>\<open>guessJP\<close> and the \<^verbatim>\<open>JapaneseCode...\<close> constants of \<^verbatim>\<open>guess_ja.go\<close>) is not
  among the sources. The spec gives its interface: one entry point from the bytes to one
  of the four codes or no answer. The codes are the datatype below, with \<open>JapaneseCodeUnknown\<close>
  for every other outcome, and the engine is the parameter \<open>guessJP\<close> of every function
  that reaches it; a fresh engine is made at each call, so it is a function of the sample.
\<close>

datatype JapaneseCode =
  JapaneseCodeJIS | JapaneseCodeEUC | JapaneseCodeSJIS | JapaneseCodeUTF8
  | JapaneseCodeUnknown

definition automaticDetectionForJapanese ::
    "(byte list \<Rightarrow> JapaneseCode) \<Rightarrow> byte list \<Rightarrow> string" where
  "automaticDetectionForJapanese guessJP ptr =
     (case guessJP ptr of
        JapaneseCodeJIS \<Rightarrow> ''jis7''
      | JapaneseCodeEUC \<Rightarrow> ''eucjp''
      | JapaneseCodeSJIS \<Rightarrow> ''sjis''
      | JapaneseCodeUTF8 \<Rightarrow> ''utf8''
      | JapaneseCodeUnknown \<Rightarrow> '''')"

text \<open>
  Modelled from the spec: an engine that recognises no Japanese encoding in any sample,
  the instance of the absent \<^verbatim>\<open>guessJP\<close> at which closed evaluations are stated.
\<close>

definition guessJP_unknown :: "byte list \<Rightarrow> JapaneseCode" where
  "guessJP_unknown ptr = JapaneseCodeUnknown"

subsection \<open>The presence tests: Arabic, Baltic, Central European, Greek, Hebrew, Turkish\<close>

fun automaticDetectionForArabic :: "byte list \<Rightarrow> string" where
  "automaticDetectionForArabic [] = ''iso-8859-6''"
| "automaticDetectionForArabic (p # ptr) =
     (if (p \<ge> 0x80 \<and> p \<le> 0x9F) \<or> p = 0xA1 \<or> p = 0xA2 \<or> p = 0xA3
         \<or> (p \<ge> 0xA5 \<and> p \<le> 0xAB) \<or> (p \<ge> 0xAE \<and> p \<le> 0xBA)
         \<or> p = 0xBC \<or> p = 0xBD \<or> p = 0xBE \<or> p = 0xC0
         \<or> (p \<ge> 0xDB \<and> p \<le> 0xDF) \<or> p \<ge> 0xF3
      then ''cp1256''
      else automaticDetectionForArabic ptr)"

fun automaticDetectionForBaltic :: "byte list \<Rightarrow> string" where
  "automaticDetectionForBaltic [] = ''iso-8859-13''"
| "automaticDetectionForBaltic (p # ptr) =
     (if p \<ge> 0x80 \<and> p \<le> 0x9E then ''cp1257''
      else if p = 0xA1 \<or> p = 0xA5 then ''iso-8859-13''
      else automaticDetectionForBaltic ptr)"

text \<open>
  \<^verbatim>\<open>for i, p := range ptr\<close> with the running \<^verbatim>\<open>charset\<close>: \<open>n\<close> is \<^verbatim>\<open>len(ptr)\<close> of
  the whole slice, \<open>i\<close> the index of the head of the rest.
\<close>

fun ce_loop :: "int \<Rightarrow> int \<Rightarrow> string \<Rightarrow> byte list \<Rightarrow> string" where
  "ce_loop n i charset [] = (if charset = '''' then ''iso-8859-3'' else charset)"
| "ce_loop n i charset (p # rest) =
     (if p \<ge> 0x80 \<and> p \<le> 0x9F then
        (if p = 0x81 \<or> p = 0x83 \<or> p = 0x90 \<or> p = 0x98 then ''ibm852''
         else if i + 1 > n then ''cp1250''
         else ce_loop n (i + 1) ''cp1250'' rest)
      else if p = 0xA5 \<or> p = 0xAE \<or> p = 0xBE \<or> p = 0xC3 \<or> p = 0xD0 \<or> p = 0xE3 \<or> p = 0xF0 then
        (if i + 1 > n then ''iso-8859-2''
         else ce_loop n (i + 1) (if charset = '''' then ''iso-8859-2'' else charset) rest)
      else ce_loop n (i + 1) charset rest)"

definition automaticDetectionForCentralEuropean :: "byte list \<Rightarrow> string" where
  "automaticDetectionForCentralEuropean ptr = ce_loop (int (length ptr)) 0 '''' ptr"

fun automaticDetectionForGreek :: "byte list \<Rightarrow> string" where
  "automaticDetectionForGreek [] = ''iso-8859-7''"
| "automaticDetectionForGreek (p # ptr) =
     (if p = 0x80 \<or> (p \<ge> 0x82 \<and> p \<le> 0x87) \<or> p = 0x89 \<or> p = 0x8B
         \<or> (p \<ge> 0x91 \<and> p \<le> 0x97) \<or> p = 0x99 \<or> p = 0x9B
         \<or> p = 0xA4 \<or> p = 0xA5 \<or> p = 0xAE
      then ''cp1253''
      else automaticDetectionForGreek ptr)"

fun automaticDetectionForHebrew :: "byte list \<Rightarrow> string" where
  "automaticDetectionForHebrew [] = ''iso-8859-8-i''"
| "automaticDetectionForHebrew (p # ptr) =
     (if p = 0x80 \<or> (p \<ge> 0x82 \<and> p \<le> 0x89) \<or> p = 0x8B
         \<or> (p \<ge> 0x91 \<and> p \<le> 0x99) \<or> p = 0x9B \<or> p = 0xA1
         \<or> (p \<ge> 0xBF \<and> p \<le> 0xC9) \<or> (p \<ge> 0xCB \<and> p \<le> 0xD8)
      then ''cp1255''
      else if p = 0xDF then ''iso-8859-8-i''
      else automaticDetectionForHebrew ptr)"

fun automaticDetectionForTurkish :: "byte list \<Rightarrow> string" where
  "automaticDetectionForTurkish [] = ''iso-8859-9''"
| "automaticDetectionForTurkish (p # ptr) =
     (if p = 0x80 \<or> (p \<ge> 0x82 \<and> p \<le> 0x8C) \<or> (p \<ge> 0x91 \<and> p \<le> 0x9C) \<or> p = 0x9F
      then ''cp1254''
      else automaticDetectionForTurkish ptr)"

subsection \<open>Dispatch on the script and the classifier\<close>

fun runHeuristics ::
    "(byte list \<Rightarrow> JapaneseCode) \<Rightarrow> byte list \<Rightarrow> AutoDetectScript \<Rightarrow> string option" where
  "runHeuristics guessJP sample Arabic = Some (automaticDetectionForArabic sample)"
| "runHeuristics guessJP sample Baltic = Some (automaticDetectionForBaltic sample)"
| "runHeuristics guessJP sample CentralEuropean =
     Some (automaticDetectionForCentralEuropean sample)"
| "runHeuristics guessJP sample Cyrillic = automaticDetectionForCyrillic sample"
| "runHeuristics guessJP sample Greek = Some (automaticDetectionForGreek sample)"
| "runHeuristics guessJP sample Hebrew = Some (automaticDetectionForHebrew sample)"
| "runHeuristics guessJP sample Japanese = Some (automaticDetectionForJapanese guessJP sample)"
| "runHeuristics guessJP sample Turkish = Some (automaticDetectionForTurkish sample)"
| "runHeuristics guessJP sample WesternEuropean = automaticDetectionForWesternEuropean sample"
| "runHeuristics guessJP sample _ = Some ''''"

text \<open>
  Lines 132 to 164 of \<^verbatim>\<open>EncodingDetector\<close>: the three heuristics tried without a hint,
  then the UTF-8 check on the whole of \<^verbatim>\<open>data\<close>. \<open>result\<close> is the record as the lines
  before have left it.
\<close>

definition detect_unhinted ::
    "(byte list \<Rightarrow> JapaneseCode) \<Rightarrow> byte list \<Rightarrow> byte list \<Rightarrow> DetectorResult
      \<Rightarrow> DetectorResult option" where
  "detect_unhinted guessJP data sample result =
     (case automaticDetectionForWesternEuropean sample of
        None \<Rightarrow> None
      | Some enc \<Rightarrow>
          if enc \<noteq> '''' then
            Some (result\<lparr>Encoding := enc, Source := AutoDetectedEncoding,
                         Script := WesternEuropean\<rparr>)
          else
            (case automaticDetectionForCyrillic sample of
               None \<Rightarrow> None
             | Some enc \<Rightarrow>
                 if enc \<noteq> '''' then
                   Some (result\<lparr>Encoding := enc, Source := AutoDetectedEncoding,
                                Script := Cyrillic\<rparr>)
                 else
                   (let enc = automaticDetectionForJapanese guessJP sample
                    in if enc \<noteq> '''' then
                         Some (result\<lparr>Encoding := enc, Source := AutoDetectedEncoding,
                                      Script := Japanese\<rparr>)
                       else if \<not> errorsIfUtf8 data then
                         Some (result\<lparr>Encoding := ''UTF-8'', Source := AutoDetectedEncoding\<rparr>)
                       else Some result)))"

definition EncodingDetector ::
    "(byte list \<Rightarrow> JapaneseCode) \<Rightarrow> byte list \<Rightarrow> AutoDetectScript \<Rightarrow> DetectorResult option" where
  "EncodingDetector guessJP data scriptHint =
     (let result = \<lparr>Encoding = ''binary'', Source = DefaultEncoding,
                    Script = None_script, IsBinary = True\<rparr>
      in if length data = 0 then
           Some (result\<lparr>Encoding := ''us-ascii'', IsBinary := False\<rparr>)
         else
           (case checkBOM data of
              (enc, True) \<Rightarrow> Some (result\<lparr>Encoding := enc, Source := BOM, IsBinary := False\<rparr>)
            | (enc, False) \<Rightarrow>
                if isBinary data then Some result
                else
                  (let result = result\<lparr>IsBinary := False, Encoding := ''us-ascii''\<rparr>;
                       checkLen = int (length data);
                       checkLen = (if checkLen > maxBuffer then maxBuffer else checkLen);
                       sample = take (nat checkLen) data
                   in case (if scriptHint \<noteq> None_script
                            then runHeuristics guessJP sample scriptHint else Some '''') of
                        None \<Rightarrow> None
                      | Some detectedEnc \<Rightarrow>
                          if scriptHint \<noteq> None_script \<and> detectedEnc \<noteq> '''' then
                            Some (result\<lparr>Encoding := detectedEnc,
                                         Source := AutoDetectedEncoding,
                                         Script := scriptHint\<rparr>)
                          else detect_unhinted guessJP data sample result)))"

subsection \<open>Vocabulary of the properties\<close>

text \<open>The sum that the Cyrillic heuristic compares with 8: the three range counters.\<close>

definition cyr_total :: "cyr_counts \<Rightarrow> int" where
  "cyr_total c = cp1251SmallRange c + koiSmallRange c + ibm866SmallRange c"

text \<open>
  The counters that count bytes by their own value. The two others, \<open>koiSt\<close> and
  \<open>cp1251St\<close>, count pairs of neighbouring bytes.
\<close>

definition cyr_buckets :: "cyr_counts \<Rightarrow> int \<times> int \<times> int \<times> int \<times> int \<times> int" where
  "cyr_buckets c = (cp1251SmallRange c, koiSmallRange c, ibm866SmallRange c,
                    utf8Mark c, koiScore c, cp1251Score c)"

text \<open>A buffer that starts with one of the three recognised byte-order marks.\<close>

definition has_BOM :: "byte list \<Rightarrow> bool" where
  "has_BOM data =
     (bytes_HasPrefix data [0xEF, 0xBB, 0xBF] \<or> bytes_HasPrefix data [0xFE, 0xFF]
      \<or> bytes_HasPrefix data [0xFF, 0xFE])"

text \<open>The number of bytes of a sample with the high bit set.\<close>

definition high_bit_count :: "byte list \<Rightarrow> int" where
  "high_bit_count xs = int (length (filter (\<lambda>b. b \<ge> 0x80) xs))"

text \<open>
  The order of the stages in the spec's words: the hinted heuristic when a hint is given
  and its answer \<open>h\<close> is not empty, then the answers \<open>w\<close>, \<open>c\<close> and \<open>j\<close> of the
  Western European, Cyrillic and Japanese heuristics, the first that is not empty, then
  the UTF-8 check, then the default. \<open>text_result\<close> is a result that is not binary.
\<close>

definition text_result :: "string \<Rightarrow> EncodingChoiceSource \<Rightarrow> AutoDetectScript \<Rightarrow> DetectorResult" where
  "text_result enc src scr = \<lparr>Encoding = enc, Source = src, Script = scr, IsBinary = False\<rparr>"

definition staged_spec ::
    "AutoDetectScript \<Rightarrow> string \<Rightarrow> string \<Rightarrow> string \<Rightarrow> string \<Rightarrow> bool \<Rightarrow> DetectorResult" where
  "staged_spec hint h w c j valid =
     (if hint \<noteq> None_script \<and> h \<noteq> '''' then text_result h AutoDetectedEncoding hint
      else if w \<noteq> '''' then text_result w AutoDetectedEncoding WesternEuropean
      else if c \<noteq> '''' then text_result c AutoDetectedEncoding Cyrillic
      else if j \<noteq> '''' then text_result j AutoDetectedEncoding Japanese
      else if valid then text_result ''UTF-8'' AutoDetectedEncoding None_script
      else text_result ''us-ascii'' DefaultEncoding None_script)"

text \<open>
  A buffer made only of two-byte UTF-8 sequences with the lead byte \<open>0xD0\<close> or \<open>0xD1\<close>,
  the encoding of the Cyrillic letters.
\<close>

fun cyrillic_utf8 :: "byte list \<Rightarrow> bool" where
  "cyrillic_utf8 [] = True"
| "cyrillic_utf8 [l] = False"
| "cyrillic_utf8 (l # c # rest) =
     ((l = 0xD0 \<or> l = 0xD1) \<and> 0x80 \<le> c \<and> c \<le> 0xBF \<and> cyrillic_utf8 rest)"

text \<open>The eleven bytes of the ASCII text \<^verbatim>\<open>hello world\<close>.\<close>

definition hello_world :: "byte list" where
  "hello_world = [0x68, 0x65, 0x6c, 0x6c, 0x6f, 0x20, 0x77, 0x6f, 0x72, 0x6c, 0x64]"

section \<open>Properties\<close>

subsection \<open>Library functions and index reads\<close>

lemma bytes_Contains_single: "bytes_Contains xs [x] = (x \<in> set xs)"
  by (induction xs) (auto simp: bytes_HasPrefix_def)

lemma isBinary_iff: "isBinary data = (0 \<in> set (take 8000 data))"
  by (auto simp: isBinary_def Let_def bytes_Contains_single)

lemma snd_checkBOM: "snd (checkBOM data) = has_BOM data"
  by (simp add: checkBOM_def has_BOM_def)

lemma at_index_tail:
  "1 \<le> j \<Longrightarrow> at_index (x # xs) j = at_index (y # xs) j"
  by (auto simp: at_index_def nth_Cons split: nat.splits)

lemma at_index_take:
  assumes t: "take n a = take n b" and j: "j < int n"
  shows "at_index a j = at_index b j"
proof (cases "0 \<le> j")
  case False
  then show ?thesis by (simp add: at_index_def)
next
  case True
  with j have jn: "nat j < n" by simp
  have len: "min (length a) n = min (length b) n"
    using arg_cong [OF t, of length] by simp
  have "a ! nat j = b ! nat j" if "nat j < length a" "nat j < length b"
    using nth_take [OF jn, of a] nth_take [OF jn, of b] t by simp
  moreover have "(nat j < length a) = (nat j < length b)"
    using len jn by (auto simp: min_def split: if_splits)
  ultimately show ?thesis using True
    by (auto simp: at_index_def)
qed

subsection \<open>The Cyrillic loop\<close>

lemma cyr_limit_eq: "cyr_limit ptr = min (int (length ptr)) 1000"
  by (simp add: cyr_limit_def Let_def cyr_zero_def)

lemma cyr_limit_le: "cyr_limit ptr \<le> int (length ptr)"
  by (simp add: cyr_limit_eq)

lemma cyr_limit_Cons: "cyr_limit (x # xs) = cyr_limit (y # xs)"
  by (simp add: cyr_limit_eq)

text \<open>
  The loop reads the indices \<open>i - 1\<close> to \<open>limit - 1\<close> and no other: two slices that
  hold the same bytes there leave it with the same counters.
\<close>

lemma cyr_loop_agree:
  "\<forall>j. i - 1 \<le> j \<and> j < limit \<longrightarrow> at_index a j = at_index b j \<Longrightarrow>
   cyr_loop a limit i c = cyr_loop b limit i c"
proof (induction a limit i c rule: cyr_loop.induct)
  case (1 a limit i c)
  show ?case
  proof (cases "i < limit")
    case False
    then show ?thesis
      by (simp add: cyr_loop.simps [of a limit i c] cyr_loop.simps [of b limit i c])
  next
    case True
    with "1.prems" have e0: "at_index a i = at_index b i"
      and e1: "at_index a (i - 1) = at_index b (i - 1)" by simp_all
    have body: "cyr_body a i p c = cyr_body b i p c" for p
      unfolding cyr_body_def e1 by (rule refl)
    from "1.prems" have nxt: "\<forall>j. i + 1 - 1 \<le> j \<and> j < limit \<longrightarrow> at_index a j = at_index b j"
      by simp
    show ?thesis
    proof (cases "at_index a i")
      case None
      with e0 True show ?thesis
        by (simp add: cyr_loop.simps [of a limit i c] cyr_loop.simps [of b limit i c])
    next
      case (Some p)
      note rd = this
      show ?thesis
      proof (cases "cyr_body a i p c")
        case None
        with rd e0 body True show ?thesis
          by (simp add: cyr_loop.simps [of a limit i c] cyr_loop.simps [of b limit i c])
      next
        case (Some c1)
        from "1.IH" [OF True rd Some nxt]
        have "cyr_loop a limit (i + 1) c1 = cyr_loop b limit (i + 1) c1" .
        with Some rd e0 body True show ?thesis
          by (simp add: cyr_loop.simps [of a limit i c] cyr_loop.simps [of b limit i c])
      qed
    qed
  qed
qed

lemma cyrillic_window:
  assumes "take 1000 a = take 1000 b"
  shows "automaticDetectionForCyrillic a = automaticDetectionForCyrillic b"
proof -
  have len: "min (length a) 1000 = min (length b) 1000"
    using arg_cong [OF assms, of length] by simp
  then have lim: "cyr_limit a = cyr_limit b"
    by (auto simp: cyr_limit_eq min_def split: if_splits)
  have "cyr_limit b \<le> 1000" by (simp add: cyr_limit_eq)
  then have "\<forall>j. 1 - 1 \<le> j \<and> j < cyr_limit b \<longrightarrow> at_index a j = at_index b j"
    using at_index_take [OF assms] by auto
  from cyr_loop_agree [OF this] lim show ?thesis
    by (simp add: automaticDetectionForCyrillic_def)
qed

text \<open>
  The byte at index 0 is no \<^verbatim>\<open>ptr[i]\<close> of the loop, only the \<^verbatim>\<open>ptr[i-1]\<close> of its first
  round: the counters of \<open>cyr_buckets\<close> do not depend on it.
\<close>

lemma cyr_body_buckets:
  assumes "1 \<le> i" "i \<le> int (length a)" "length a = length b"
    and "cyr_buckets c = cyr_buckets d"
  shows "\<exists>c' d'. cyr_body a i p c = Some c' \<and> cyr_body b i p d = Some d'
           \<and> cyr_buckets c' = cyr_buckets d'"
proof -
  from assms have ra: "at_index a (i - 1) = Some (a ! nat (i - 1))"
    and rb: "at_index b (i - 1) = Some (b ! nat (i - 1))"
    by (simp_all add: at_index_def)
  from assms(4) show ?thesis
    by (simp add: cyr_body_def ra rb Let_def cyr_buckets_def)
qed

lemma cyr_loop_buckets:
  "1 \<le> i \<Longrightarrow> limit \<le> int (length a) \<Longrightarrow> length a = length b \<Longrightarrow>
   \<forall>j. 1 \<le> j \<longrightarrow> at_index a j = at_index b j \<Longrightarrow>
   cyr_buckets c = cyr_buckets d \<Longrightarrow>
   map_option cyr_buckets (cyr_loop a limit i c) = map_option cyr_buckets (cyr_loop b limit i d)"
proof (induction a limit i c arbitrary: d rule: cyr_loop.induct)
  case (1 a limit i c)
  show ?case
  proof (cases "i < limit")
    case False
    with "1.prems" show ?thesis
      by (simp add: cyr_loop.simps [of a limit i c] cyr_loop.simps [of b limit i d])
  next
    case True
    with "1.prems" have ra: "at_index a i = Some (a ! nat i)"
      by (simp add: at_index_def)
    with "1.prems" have rb: "at_index b i = Some (a ! nat i)" by auto
    from True "1.prems" obtain c' d' where
      ba: "cyr_body a i (a ! nat i) c = Some c'" and bb: "cyr_body b i (a ! nat i) d = Some d'"
      and e: "cyr_buckets c' = cyr_buckets d'"
      using cyr_body_buckets [of i a b c d "a ! nat i"] by auto
    from "1.prems" have "1 \<le> i + 1" by simp
    from "1.IH" [OF True ra ba this "1.prems"(2) "1.prems"(3) "1.prems"(4) e]
    show ?thesis using True
      by (simp add: cyr_loop.simps [of a limit i c] cyr_loop.simps [of b limit i d] ra rb ba bb)
  qed
qed

lemma cyrillic_buckets_first:
  "map_option cyr_buckets (cyr_loop (x # xs) (cyr_limit (x # xs)) 1 cyr_zero)
   = map_option cyr_buckets (cyr_loop (y # xs) (cyr_limit (y # xs)) 1 cyr_zero)"
proof -
  have "map_option cyr_buckets (cyr_loop (x # xs) (cyr_limit (x # xs)) 1 cyr_zero)
        = map_option cyr_buckets (cyr_loop (y # xs) (cyr_limit (x # xs)) 1 cyr_zero)"
    using cyr_limit_le [of "x # xs"]
    by (intro cyr_loop_buckets) (simp_all add: at_index_tail)
  then show ?thesis by (simp add: cyr_limit_Cons [of x xs y])
qed

text \<open>
  The first round reads \<^verbatim>\<open>ptr[0]\<close> only when \<^verbatim>\<open>ptr[1]\<close> is \<open>0xf2\<close> or \<open>0xd4\<close>.
\<close>

lemma cyr_body_no_marker:
  "p \<noteq> 0xf2 \<Longrightarrow> p \<noteq> 0xd4 \<Longrightarrow> cyr_body a i p c = cyr_body b i p c"
  by (simp add: cyr_body_def Let_def)

lemma cyrillic_first_byte:
  assumes "case xs of [] \<Rightarrow> True | p # ps \<Rightarrow> p \<noteq> 0xf2 \<and> p \<noteq> 0xd4"
  shows "automaticDetectionForCyrillic (x # xs) = automaticDetectionForCyrillic (y # xs)"
proof -
  let ?l = "cyr_limit (x # xs)"
  have lim: "cyr_limit (y # xs) = ?l" by (rule cyr_limit_Cons)
  have tl: "\<forall>j. 2 - 1 \<le> j \<and> j < ?l \<longrightarrow> at_index (x # xs) j = at_index (y # xs) j"
    by (simp add: at_index_tail)
  have "cyr_loop (x # xs) ?l 1 cyr_zero = cyr_loop (y # xs) ?l 1 cyr_zero"
  proof (cases xs)
    case Nil
    then show ?thesis
      by (simp add: cyr_limit_eq cyr_loop.simps [of _ 1 1])
  next
    case (Cons p ps)
    with assms have p: "p \<noteq> 0xf2" "p \<noteq> 0xd4" by simp_all
    have r: "at_index (x # xs) 1 = Some p" "at_index (y # xs) 1 = Some p"
      using Cons by (simp_all add: at_index_def)
    have b: "cyr_body (x # xs) 1 p cyr_zero = cyr_body (y # xs) 1 p cyr_zero"
      using p by (rule cyr_body_no_marker)
    show ?thesis
      using cyr_loop_agree [OF tl]
      by (simp add: cyr_loop.simps [of _ ?l 1] r b split: option.split)
  qed
  then show ?thesis by (simp add: automaticDetectionForCyrillic_def lim)
qed

subsection \<open>The Western European loop returns\<close>

lemma we_loop_total:
  "0 \<le> i \<Longrightarrow> \<exists>s. we_loop ptr i n = Some s \<and> s \<in> {'''', ''UTF-8'', ''cp1252'', ''iso-8859-15''}"
proof (induction ptr i n rule: we_loop.induct)
  case (1 ptr i n)
  show ?case
  proof (cases "i < int (length ptr) - 1")
    case False
    then show ?thesis by (simp add: we_loop.simps [of ptr i n])
  next
    case True
    with "1.prems" have rd: "at_index ptr i = Some (ptr ! nat i)"
      and rd': "at_index ptr (i + 1) = Some (ptr ! nat (i + 1))"
      by (simp_all add: at_index_def)
    from "1.prems" have nn: "0 \<le> i + 1" by simp
    show ?thesis
      using True "1.IH"(1) [OF True rd _ _ _ _ nn] "1.IH"(2) [OF True rd _ nn]
      apply (subst we_loop.simps)
      apply (simp add: rd rd')
      apply (auto simp: rd')
      done
  qed
qed

lemma WesternEuropean_total:
  "\<exists>s. automaticDetectionForWesternEuropean ptr = Some s
        \<and> s \<in> {'''', ''UTF-8'', ''cp1252'', ''iso-8859-15''}"
  using we_loop_total [of 0 ptr 0]
  by (simp add: automaticDetectionForWesternEuropean_def Let_def)

subsection \<open>The Cyrillic loop returns, and counts high-bit bytes only\<close>


lemma cyr_body_bound:
  assumes "1 \<le> i" "i \<le> int (length ptr)"
  shows "\<exists>c'. cyr_body ptr i p c = Some c'
          \<and> cyr_total c' \<le> cyr_total c + (if p \<ge> 0x80 then 1 else 0)"
proof -
  from assms have rd: "at_index ptr (i - 1) = Some (ptr ! nat (i - 1))"
    by (simp add: at_index_def)
  show ?thesis
    by (auto simp: cyr_body_def rd Let_def cyr_total_def word_less_nat_alt word_le_nat_alt)
qed

lemma drop_take_step:
  assumes "0 \<le> i" "i < limit" "limit \<le> int (length ptr)"
  shows "drop (nat i) (take (nat limit) ptr)
         = ptr ! nat i # drop (nat (i + 1)) (take (nat limit) ptr)"
proof -
  from assms have "nat i < length (take (nat limit) ptr)" by simp
  then have "drop (nat i) (take (nat limit) ptr)
      = take (nat limit) ptr ! nat i # drop (Suc (nat i)) (take (nat limit) ptr)"
    by (rule Cons_nth_drop_Suc [symmetric])
  moreover from assms have "take (nat limit) ptr ! nat i = ptr ! nat i" by simp
  moreover from assms have "Suc (nat i) = nat (i + 1)" by simp
  ultimately show ?thesis by simp
qed

lemma cyr_loop_bound:
  "1 \<le> i \<Longrightarrow> limit \<le> int (length ptr) \<Longrightarrow>
   \<exists>c'. cyr_loop ptr limit i c = Some c'
     \<and> cyr_total c' \<le> cyr_total c + high_bit_count (drop (nat i) (take (nat limit) ptr))"
proof (induction ptr limit i c rule: cyr_loop.induct)
  case (1 ptr limit i c)
  show ?case
  proof (cases "i < limit")
    case False
    then show ?thesis
      by (simp add: cyr_loop.simps [of ptr limit i c] high_bit_count_def)
  next
    case True
    with "1.prems" have rd: "at_index ptr i = Some (ptr ! nat i)"
      by (simp add: at_index_def)
    from True "1.prems" obtain c1 where
      b: "cyr_body ptr i (ptr ! nat i) c = Some c1"
      and b1: "cyr_total c1 \<le> cyr_total c + (if ptr ! nat i \<ge> 0x80 then 1 else 0)"
      using cyr_body_bound [of i ptr "ptr ! nat i" c] by auto
    from "1.prems" have "1 \<le> i + 1" by simp
    from "1.IH" [OF True rd b this "1.prems"(2)] obtain c' where
      l: "cyr_loop ptr limit (i + 1) c1 = Some c'"
      and l1: "cyr_total c' \<le> cyr_total c1
                 + high_bit_count (drop (nat (i + 1)) (take (nat limit) ptr))"
      by auto
    have d: "high_bit_count (drop (nat i) (take (nat limit) ptr))
        = (if ptr ! nat i \<ge> 0x80 then 1 else 0)
          + high_bit_count (drop (nat (i + 1)) (take (nat limit) ptr))"
      using drop_take_step [of i limit ptr] True "1.prems"
      by (simp add: high_bit_count_def)
    have "cyr_loop ptr limit i c = Some c'"
      using True by (subst cyr_loop.simps) (simp add: rd b l)
    with b1 l1 d show ?thesis by simp
  qed
qed

lemma cyr_decide_names:
  "cyr_decide c \<in> {'''', ''UTF-8'', ''ibm866'', ''cp1251'', ''koi8-u''}"
  by (simp add: cyr_decide_def Let_def)

lemma Cyrillic_total:
  "\<exists>s. automaticDetectionForCyrillic ptr = Some s
        \<and> s \<in> {'''', ''UTF-8'', ''ibm866'', ''cp1251'', ''koi8-u''}"
proof -
  obtain c' where "cyr_loop ptr (cyr_limit ptr) 1 cyr_zero = Some c'"
    using cyr_loop_bound [of 1 "cyr_limit ptr" ptr cyr_zero] cyr_limit_le by auto
  then show ?thesis
    using cyr_decide_names [of c'] by (simp add: automaticDetectionForCyrillic_def)
qed


subsection \<open>The names the heuristics answer\<close>

lemma arabic_names: "automaticDetectionForArabic xs \<in> {''cp1256'', ''iso-8859-6''}"
  by (induction xs) simp_all

lemma baltic_names: "automaticDetectionForBaltic xs \<in> {''cp1257'', ''iso-8859-13''}"
  by (induction xs) simp_all

lemma greek_names: "automaticDetectionForGreek xs \<in> {''cp1253'', ''iso-8859-7''}"
  by (induction xs) simp_all

lemma hebrew_names: "automaticDetectionForHebrew xs \<in> {''cp1255'', ''iso-8859-8-i''}"
  by (induction xs) simp_all

lemma turkish_names: "automaticDetectionForTurkish xs \<in> {''cp1254'', ''iso-8859-9''}"
  by (induction xs) simp_all

lemma ce_loop_names:
  "ce_loop n i charset xs \<in> {''ibm852'', ''cp1250'', ''iso-8859-2'', ''iso-8859-3''}
   \<or> (charset \<noteq> '''' \<and> ce_loop n i charset xs = charset)"
  by (induction n i charset xs rule: ce_loop.induct) auto

lemma central_names:
  "automaticDetectionForCentralEuropean xs
     \<in> {''ibm852'', ''cp1250'', ''iso-8859-2'', ''iso-8859-3''}"
  using ce_loop_names [of "int (length xs)" 0 "''''" xs]
  by (auto simp: automaticDetectionForCentralEuropean_def)

lemma japanese_names:
  "automaticDetectionForJapanese guessJP xs \<in> {'''', ''jis7'', ''eucjp'', ''sjis'', ''utf8''}"
  by (simp add: automaticDetectionForJapanese_def split: JapaneseCode.split)

lemma runHeuristics_total:
  "\<exists>h. runHeuristics guessJP sample hint = Some h \<and> h \<noteq> ''binary''"
proof (cases hint)
  case Arabic
  then show ?thesis using arabic_names [of sample] by auto
next
  case Baltic
  then show ?thesis using baltic_names [of sample] by auto
next
  case CentralEuropean
  then show ?thesis using central_names [of sample] by auto
next
  case Cyrillic
  then show ?thesis using Cyrillic_total [of sample] by auto
next
  case Greek
  then show ?thesis using greek_names [of sample] by auto
next
  case Hebrew
  then show ?thesis using hebrew_names [of sample] by auto
next
  case Japanese
  then show ?thesis using japanese_names [of guessJP sample] by auto
next
  case Turkish
  then show ?thesis using turkish_names [of sample] by auto
next
  case WesternEuropean
  then show ?thesis using WesternEuropean_total [of sample] by auto
qed simp_all

subsection \<open>The classifier in closed form\<close>

lemma sample_take:
  "take (nat (if int (length data) > maxBuffer then maxBuffer else int (length data))) data
   = take 16384 data"
  by (simp add: maxBuffer_def)

lemma EncodingDetector_staged:
  assumes "data \<noteq> []" "\<not> has_BOM data" "\<not> isBinary data"
  shows "\<exists>h w c. runHeuristics guessJP (take 16384 data) scriptHint = Some h
           \<and> h \<noteq> ''binary''
           \<and> automaticDetectionForWesternEuropean (take 16384 data) = Some w
           \<and> w \<in> {'''', ''UTF-8'', ''cp1252'', ''iso-8859-15''}
           \<and> automaticDetectionForCyrillic (take 16384 data) = Some c
           \<and> c \<in> {'''', ''UTF-8'', ''ibm866'', ''cp1251'', ''koi8-u''}
           \<and> EncodingDetector guessJP data scriptHint =
               Some (staged_spec scriptHint h w c
                       (automaticDetectionForJapanese guessJP (take 16384 data))
                       (utf8_Valid data))"
proof -
  let ?s = "take 16384 data"
  obtain h where h: "runHeuristics guessJP ?s scriptHint = Some h" "h \<noteq> ''binary''"
    using runHeuristics_total by blast
  obtain w where w: "automaticDetectionForWesternEuropean ?s = Some w"
    "w \<in> {'''', ''UTF-8'', ''cp1252'', ''iso-8859-15''}"
    using WesternEuropean_total by blast
  obtain c where c: "automaticDetectionForCyrillic ?s = Some c"
    "c \<in> {'''', ''UTF-8'', ''ibm866'', ''cp1251'', ''koi8-u''}"
    using Cyrillic_total by blast
  from assms(2) obtain e where bom: "checkBOM data = (e, False)"
    by (cases "checkBOM data") (simp add: snd_checkBOM [symmetric])
  have "EncodingDetector guessJP data scriptHint =
      Some (staged_spec scriptHint h w c (automaticDetectionForJapanese guessJP ?s)
              (utf8_Valid data))"
    using assms(1,3)
    by (simp add: EncodingDetector_def bom Let_def sample_take h w c detect_unhinted_def
        staged_spec_def text_result_def errorsIfUtf8_def)
  with h w c show ?thesis by blast
qed

lemma EncodingDetector_returns:
  "\<exists>r. EncodingDetector guessJP data scriptHint = Some r"
proof (cases "data \<noteq> [] \<and> \<not> has_BOM data \<and> \<not> isBinary data")
  case True
  then have "data \<noteq> []" "\<not> has_BOM data" "\<not> isBinary data" by simp_all
  from EncodingDetector_staged [OF this, of guessJP scriptHint] show ?thesis by blast
next
  case False
  obtain e b where bom: "checkBOM data = (e, b)" by (cases "checkBOM data")
  show ?thesis
  proof (cases "data = []")
    case True
    then show ?thesis by (simp add: EncodingDetector_def)
  next
    case ne: False
    show ?thesis
    proof (cases b)
      case True
      with ne bom show ?thesis by (simp add: EncodingDetector_def)
    next
      case nb: False
      with False ne bom have "isBinary data" by (simp add: snd_checkBOM [symmetric])
      with ne bom nb show ?thesis by (simp add: EncodingDetector_def)
    qed
  qed
qed

subsection \<open>Two-byte Cyrillic UTF-8\<close>

lemma cyrillic_utf8_no_null: "cyrillic_utf8 xs \<Longrightarrow> 0 \<notin> set xs"
  by (induction xs rule: cyrillic_utf8.induct) auto

lemma utf8_Valid_D0_D1:
  assumes "l = 0xD0 \<or> l = 0xD1"
  shows "utf8_Valid (l # c # rest) = (0x80 \<le> c \<and> c \<le> 0xBF \<and> utf8_Valid rest)"
proof -
  from assms have "\<not> l < 0x80" and "utf8_first l = Some (2, 0x80, 0xBF)"
    by (auto simp: utf8_first_def)
  then show ?thesis
    by (subst utf8_Valid.simps) simp
qed

lemma cyrillic_utf8_valid: "cyrillic_utf8 xs \<Longrightarrow> utf8_Valid xs"
proof (induction xs rule: cyrillic_utf8.induct)
  case 1
  show ?case by simp
next
  case (2 l)
  then show ?case by simp
next
  case (3 l c rest)
  then have "l = 0xD0 \<or> l = 0xD1" "0x80 \<le> c" "c \<le> 0xBF" "utf8_Valid rest"
    by simp_all
  then show ?case by (simp only: utf8_Valid_D0_D1 simp_thms)
qed

lemma WesternEuropean_lead_pair:
  assumes "l = 0xD0 \<or> l = 0xD1" "0x80 \<le> c" "c \<le> 0xBF"
  shows "automaticDetectionForWesternEuropean (l # c # rest) = Some ''UTF-8''"
proof -
  from assms(2,3) have c: "c > 0x7f" "c < 0xc0"
    by (simp_all add: word_less_nat_alt word_le_nat_alt)
  from assms(1) have l: "l > 0x79" "l > 0xc1" "l < 0xf0" by auto
  have "we_loop (l # c # rest) 0 0 = Some ''UTF-8''"
    by (subst we_loop.simps) (simp add: at_index_def l c)
  then show ?thesis
    by (simp add: automaticDetectionForWesternEuropean_def)
qed

subsection \<open>Evaluation at concrete inputs\<close>

lemmas eval_defs =
  EncodingDetector_def detect_unhinted_def checkBOM_def has_BOM_def bytes_HasPrefix_def
  isBinary_def IsText_def Let_def maxBuffer_def automaticDetectionForWesternEuropean_def
  automaticDetectionForCyrillic_def cyr_limit_def cyr_zero_def cyr_body_def cyr_decide_def
  automaticDetectionForJapanese_def guessJP_unknown_def errorsIfUtf8_def at_index_def
  utf8_first_def utf8_cont_def we_loop.simps cyr_loop.simps

lemma hello_world_stages:
  "hello_world \<noteq> []" "\<not> has_BOM hello_world" "\<not> isBinary hello_world"
  "automaticDetectionForWesternEuropean (take 16384 hello_world) = Some ''''"
  "automaticDetectionForCyrillic (take 16384 hello_world) = Some ''''"
  "utf8_Valid hello_world"
  by (simp_all add: hello_world_def eval_defs)

subsection \<open>The claims\<close>

text \<open>
  C1. A buffer that starts with one of the three recognised byte-order marks
  (\<open>EF BB BF\<close>, \<open>FE FF\<close>, \<open>FF FE\<close>) is classified as text with source BOM and the
  name of the mark, whatever follows, null bytes included, for every engine and hint.
\<close>

theorem C1_bom_before_binary:
  assumes "bytes_HasPrefix data [0xEF, 0xBB, 0xBF] \<or> bytes_HasPrefix data [0xFE, 0xFF]
           \<or> bytes_HasPrefix data [0xFF, 0xFE]"
  shows "EncodingDetector guessJP data scriptHint =
     Some \<lparr>Encoding = (if bytes_HasPrefix data [0xEF, 0xBB, 0xBF] then ''UTF-8-BOM''
                        else if bytes_HasPrefix data [0xFE, 0xFF] then ''UTF-16BE''
                        else ''UTF-16LE''),
           Source = BOM, Script = None_script, IsBinary = False\<rparr>"
proof -
  from assms have "data \<noteq> []" by (auto simp: bytes_HasPrefix_def)
  with assms show ?thesis
    by (auto simp: EncodingDetector_def checkBOM_def)
qed

theorem C1_bom_before_binary_witness:
  "bytes_HasPrefix [0xFE, 0xFF, 0x00, 0x41] [0xFE, 0xFF]
   \<and> isBinary [0xFE, 0xFF, 0x00, 0x41]
   \<and> EncodingDetector guessJP_unknown [0xFE, 0xFF, 0x00, 0x41] Cyrillic =
       Some \<lparr>Encoding = ''UTF-16BE'', Source = BOM, Script = None_script, IsBinary = False\<rparr>"
  using C1_bom_before_binary [of "[0xFE, 0xFF, 0x00, 0x41]" guessJP_unknown Cyrillic]
  by (simp add: bytes_HasPrefix_def isBinary_iff)

text \<open>
  C2. A non-empty buffer without byte-order mark is classified binary exactly when one
  of its first 8000 bytes is null, and then the result is the default one: name
  \<open>binary\<close>, source default. A null byte from index 8000 on does not count.
\<close>

theorem C2_null_byte_binary:
  assumes "data \<noteq> []" "\<not> has_BOM data"
  shows "\<exists>r. EncodingDetector guessJP data scriptHint = Some r
           \<and> IsBinary r = (0 \<in> set (take 8000 data))
           \<and> (if 0 \<in> set (take 8000 data)
              then r = \<lparr>Encoding = ''binary'', Source = DefaultEncoding,
                         Script = None_script, IsBinary = True\<rparr>
              else Encoding r \<noteq> ''binary'')"
proof (cases "isBinary data")
  case True
  from assms(2) obtain e where bom: "checkBOM data = (e, False)"
    by (cases "checkBOM data") (simp add: snd_checkBOM [symmetric])
  from True assms(1) bom show ?thesis
    by (simp add: EncodingDetector_def isBinary_iff [symmetric])
next
  case False
  from EncodingDetector_staged [OF assms False, of guessJP scriptHint]
    japanese_names [of guessJP "take 16384 data"] False
  show ?thesis
    by (auto simp: staged_spec_def text_result_def isBinary_iff [symmetric])
qed

theorem C2_null_byte_binary_witness:
  "[0x41, 0x00] \<noteq> [] \<and> \<not> has_BOM [0x41, 0x00]
   \<and> EncodingDetector guessJP_unknown [0x41, 0x00] None_script =
       Some \<lparr>Encoding = ''binary'', Source = DefaultEncoding, Script = None_script,
             IsBinary = True\<rparr>
   \<and> 0 \<notin> set (take 8000 (replicate 8000 0x41 @ [0x00 :: byte]))
   \<and> map_option IsBinary
        (EncodingDetector guessJP_unknown (replicate 8000 0x41 @ [0x00]) None_script)
      = Some False"
proof -
  have b1: "\<not> has_BOM [0x41, 0x00]"
    by (simp add: has_BOM_def bytes_HasPrefix_def)
  have b2: "\<not> has_BOM (replicate 8000 0x41 @ [0x00])"
    by (simp add: has_BOM_def bytes_HasPrefix_def)
  have z: "0 \<notin> set (take 8000 (replicate 8000 0x41 @ [0x00 :: byte]))"
    by simp
  from C2_null_byte_binary [of "[0x41, 0x00]" guessJP_unknown None_script] b1
  have "EncodingDetector guessJP_unknown [0x41, 0x00] None_script =
       Some \<lparr>Encoding = ''binary'', Source = DefaultEncoding, Script = None_script,
             IsBinary = True\<rparr>"
    by simp
  moreover
  from C2_null_byte_binary [of "replicate 8000 0x41 @ [0x00]" guessJP_unknown None_script] b2 z
  have "map_option IsBinary
        (EncodingDetector guessJP_unknown (replicate 8000 0x41 @ [0x00]) None_script)
      = Some False"
    by auto
  ultimately show ?thesis using b1 z by simp
qed

text \<open>
  C3. For every input, hint and engine the classifier returns a result, the result is
  binary exactly when its encoding name is \<open>binary\<close>, and the name is never empty.
\<close>

theorem C3_binary_iff_name:
  "\<exists>r. EncodingDetector guessJP data scriptHint = Some r
        \<and> IsBinary r = (Encoding r = ''binary'') \<and> Encoding r \<noteq> ''''"
proof (cases "data = []")
  case True
  then show ?thesis by (simp add: EncodingDetector_def)
next
  case ne: False
  show ?thesis
  proof (cases "has_BOM data")
    case True
    then obtain e where "checkBOM data = (e, True)"
      by (cases "checkBOM data") (simp add: snd_checkBOM [symmetric])
    moreover from this have "e \<in> {''UTF-8-BOM'', ''UTF-16BE'', ''UTF-16LE''}"
      by (auto simp: checkBOM_def split: if_splits)
    ultimately show ?thesis using ne by (auto simp: EncodingDetector_def)
  next
    case nobom: False
    then obtain e where bom: "checkBOM data = (e, False)"
      by (cases "checkBOM data") (simp add: snd_checkBOM [symmetric])
    show ?thesis
    proof (cases "isBinary data")
      case True
      with ne bom show ?thesis by (simp add: EncodingDetector_def)
    next
      case False
      from EncodingDetector_staged [OF ne nobom False, of guessJP scriptHint]
        japanese_names [of guessJP "take 16384 data"]
      show ?thesis
        by (auto simp: staged_spec_def text_result_def)
    qed
  qed
qed

text \<open>
  C4. \<open>IsText\<close> holds exactly when the buffer is empty or has no null byte among its
  first 8000 bytes. It is not the text flag of the full classifier: on \<open>FE FF 00\<close>
  \<open>IsText\<close> is false and the classifier answers text.
\<close>

theorem C4_IsText_null_bytes_only:
  "IsText data = (data = [] \<or> 0 \<notin> set (take 8000 data))
   \<and> IsText [0xFE, 0xFF, 0x00] = False
   \<and> map_option IsBinary (EncodingDetector guessJP [0xFE, 0xFF, 0x00] scriptHint) = Some False"
proof -
  have "IsText data = (data = [] \<or> 0 \<notin> set (take 8000 data))"
    by (auto simp: IsText_def isBinary_iff)
  moreover have "IsText [0xFE, 0xFF, 0x00] = False"
    by (simp add: IsText_def isBinary_iff)
  moreover have "map_option IsBinary (EncodingDetector guessJP [0xFE, 0xFF, 0x00] scriptHint)
      = Some False"
    by (simp add: EncodingDetector_def checkBOM_def bytes_HasPrefix_def)
  ultimately show ?thesis by simp
qed



text \<open>
  C6, as the code has it. When no byte-order mark, no null byte and no heuristic (the
  hinted one, Western European, Cyrillic, Japanese) gives an answer, the UTF-8 check of
  the whole buffer decides: \<open>UTF-8\<close> with source heuristic when the buffer is valid
  UTF-8, the default \<open>us-ascii\<close> with source default when it is not. The ASCII text
  \<^verbatim>\<open>hello world\<close> is valid UTF-8: with no hint it is classified \<open>UTF-8\<close> with source
  heuristic, unless the Japanese engine names an encoding for it.
\<close>

theorem C6_utf8_fallback:
  "(data \<noteq> [] \<and> \<not> has_BOM data \<and> \<not> isBinary data
      \<and> (scriptHint = None_script
          \<or> runHeuristics guessJP (take 16384 data) scriptHint = Some '''')
      \<and> automaticDetectionForWesternEuropean (take 16384 data) = Some ''''
      \<and> automaticDetectionForCyrillic (take 16384 data) = Some ''''
      \<and> automaticDetectionForJapanese guessJP (take 16384 data) = ''''
    \<longrightarrow> EncodingDetector guessJP data scriptHint =
          Some (if utf8_Valid data
                then \<lparr>Encoding = ''UTF-8'', Source = AutoDetectedEncoding,
                       Script = None_script, IsBinary = False\<rparr>
                else \<lparr>Encoding = ''us-ascii'', Source = DefaultEncoding,
                       Script = None_script, IsBinary = False\<rparr>))
   \<and> EncodingDetector guessJP hello_world None_script =
       Some (if automaticDetectionForJapanese guessJP hello_world = ''''
             then \<lparr>Encoding = ''UTF-8'', Source = AutoDetectedEncoding,
                    Script = None_script, IsBinary = False\<rparr>
             else \<lparr>Encoding = automaticDetectionForJapanese guessJP hello_world,
                    Source = AutoDetectedEncoding, Script = Japanese, IsBinary = False\<rparr>)"
proof (intro conjI impI)
  assume a: "data \<noteq> [] \<and> \<not> has_BOM data \<and> \<not> isBinary data
      \<and> (scriptHint = None_script
          \<or> runHeuristics guessJP (take 16384 data) scriptHint = Some '''')
      \<and> automaticDetectionForWesternEuropean (take 16384 data) = Some ''''
      \<and> automaticDetectionForCyrillic (take 16384 data) = Some ''''
      \<and> automaticDetectionForJapanese guessJP (take 16384 data) = ''''"
  then have p: "data \<noteq> []" "\<not> has_BOM data" "\<not> isBinary data" by simp_all
  from EncodingDetector_staged [OF p, of guessJP scriptHint] a
  show "EncodingDetector guessJP data scriptHint =
          Some (if utf8_Valid data
                then \<lparr>Encoding = ''UTF-8'', Source = AutoDetectedEncoding,
                       Script = None_script, IsBinary = False\<rparr>
                else \<lparr>Encoding = ''us-ascii'', Source = DefaultEncoding,
                       Script = None_script, IsBinary = False\<rparr>)"
    by (auto simp: staged_spec_def text_result_def)
next
  have t: "take 16384 hello_world = hello_world" by (simp add: hello_world_def)
  from EncodingDetector_staged [OF hello_world_stages(1-3), of guessJP None_script]
    hello_world_stages(4-6)
  show "EncodingDetector guessJP hello_world None_script =
       Some (if automaticDetectionForJapanese guessJP hello_world = ''''
             then \<lparr>Encoding = ''UTF-8'', Source = AutoDetectedEncoding,
                    Script = None_script, IsBinary = False\<rparr>
             else \<lparr>Encoding = automaticDetectionForJapanese guessJP hello_world,
                    Source = AutoDetectedEncoding, Script = Japanese, IsBinary = False\<rparr>)"
    by (auto simp: staged_spec_def text_result_def t)
qed

theorem C6_utf8_fallback_witness:
  "[0x41, 0xFF] \<noteq> [] \<and> \<not> has_BOM [0x41, 0xFF] \<and> \<not> isBinary [0x41, 0xFF]
   \<and> automaticDetectionForWesternEuropean (take 16384 [0x41, 0xFF]) = Some ''''
   \<and> automaticDetectionForCyrillic (take 16384 [0x41, 0xFF]) = Some ''''
   \<and> automaticDetectionForJapanese guessJP_unknown (take 16384 [0x41, 0xFF]) = ''''
   \<and> \<not> utf8_Valid [0x41, 0xFF]
   \<and> EncodingDetector guessJP_unknown [0x41, 0xFF] None_script =
       Some \<lparr>Encoding = ''us-ascii'', Source = DefaultEncoding, Script = None_script,
             IsBinary = False\<rparr>"
proof -
  have p: "[0x41, 0xFF :: byte] \<noteq> []" "\<not> has_BOM [0x41, 0xFF]"
    "\<not> isBinary [0x41, 0xFF]"
    "automaticDetectionForWesternEuropean (take 16384 [0x41, 0xFF]) = Some ''''"
    "automaticDetectionForCyrillic (take 16384 [0x41, 0xFF]) = Some ''''"
    "automaticDetectionForJapanese guessJP_unknown (take 16384 [0x41, 0xFF]) = ''''"
    "\<not> utf8_Valid [0x41, 0xFF]"
    by (simp_all add: eval_defs)
  with C6_utf8_fallback [of "[0x41, 0xFF]" None_script guessJP_unknown]
  show ?thesis by simp
qed

text \<open>
  The claim as it is written gives \<^verbatim>\<open>hello world\<close> the name \<open>us-ascii\<close> with source
  default. The classifier, with an engine that finds no Japanese encoding, answers
  \<open>UTF-8\<close> with source heuristic.
\<close>

theorem C6_hello_world_counterexample:
  "EncodingDetector guessJP_unknown hello_world None_script =
     Some \<lparr>Encoding = ''UTF-8'', Source = AutoDetectedEncoding, Script = None_script,
           IsBinary = False\<rparr>
   \<and> EncodingDetector guessJP_unknown hello_world None_script \<noteq>
     Some \<lparr>Encoding = ''us-ascii'', Source = DefaultEncoding, Script = None_script,
           IsBinary = False\<rparr>"
  by (simp add: hello_world_def eval_defs)

text \<open>
  C7, as the code has it. A buffer of two-byte UTF-8 sequences with lead bytes \<open>0xD0\<close>
  and \<open>0xD1\<close> only, with at least 8 high-bit bytes, is valid UTF-8 without byte-order
  mark or null byte, and with no hint it is classified \<open>UTF-8\<close> with source heuristic
  by the Western European heuristic, which is tried first and answers at the first
  lead and continuation pair: the script of the result is Western European.
\<close>

theorem C7_cyrillic_utf8_text:
  assumes "cyrillic_utf8 data" "8 \<le> high_bit_count data"
  shows "utf8_Valid data \<and> \<not> has_BOM data \<and> \<not> isBinary data
     \<and> EncodingDetector guessJP data None_script =
       Some \<lparr>Encoding = ''UTF-8'', Source = AutoDetectedEncoding, Script = WesternEuropean,
             IsBinary = False\<rparr>"
proof -
  from assms(2) have "data \<noteq> []" by (auto simp: high_bit_count_def)
  with assms(1) obtain l c rest where d: "data = l # c # rest"
    and l: "l = 0xD0 \<or> l = 0xD1" and c: "0x80 \<le> c" "c \<le> 0xBF"
    by (cases data rule: cyrillic_utf8.cases) auto
  from l have nobom: "\<not> has_BOM data"
    by (auto simp: d has_BOM_def bytes_HasPrefix_def)
  from cyrillic_utf8_no_null [OF assms(1)] have nonull: "\<not> isBinary data"
    by (auto simp: isBinary_iff dest: in_set_takeD)
  have "take 16384 data = l # c # take 16382 rest" by (simp add: d take_Cons')
  with WesternEuropean_lead_pair [OF l c]
  have w: "automaticDetectionForWesternEuropean (take 16384 data) = Some ''UTF-8''" by simp
  from EncodingDetector_staged [OF \<open>data \<noteq> []\<close> nobom nonull, of guessJP None_script] w
  have "EncodingDetector guessJP data None_script =
       Some \<lparr>Encoding = ''UTF-8'', Source = AutoDetectedEncoding, Script = WesternEuropean,
             IsBinary = False\<rparr>"
    by (auto simp: staged_spec_def text_result_def)
  with cyrillic_utf8_valid [OF assms(1)] nobom nonull show ?thesis by simp
qed

theorem C7_cyrillic_utf8_text_witness:
  "cyrillic_utf8 [0xD0, 0xB0, 0xD0, 0xB0, 0xD0, 0xB0, 0xD0, 0xB0]
   \<and> 8 \<le> high_bit_count [0xD0, 0xB0, 0xD0, 0xB0, 0xD0, 0xB0, 0xD0, 0xB0]
   \<and> EncodingDetector guessJP_unknown [0xD0, 0xB0, 0xD0, 0xB0, 0xD0, 0xB0, 0xD0, 0xB0]
       None_script =
       Some \<lparr>Encoding = ''UTF-8'', Source = AutoDetectedEncoding, Script = WesternEuropean,
             IsBinary = False\<rparr>"
proof -
  have p: "cyrillic_utf8 [0xD0, 0xB0, 0xD0, 0xB0, 0xD0, 0xB0, 0xD0, 0xB0]"
    "8 \<le> high_bit_count [0xD0, 0xB0, 0xD0, 0xB0, 0xD0, 0xB0, 0xD0, 0xB0]"
    by (simp_all add: high_bit_count_def)
  from C7_cyrillic_utf8_text [OF p, of guessJP_unknown] p show ?thesis by simp
qed

text \<open>
  The claim as it is written has the answer come from the Cyrillic heuristic, with script
  Cyrillic. On the eight bytes of a four-letter Cyrillic word the script of the result is
  Western European, and the Cyrillic heuristic alone is inconclusive there: it counts
  three bytes, the lead bytes from index 1 on, and no continuation byte outside
  \<open>0xA0..0xAF\<close>.
\<close>

theorem C7_script_counterexample:
  "cyrillic_utf8 [0xD0, 0xBC, 0xD0, 0xB8, 0xD1, 0x80, 0xD1, 0x83]
   \<and> high_bit_count [0xD0, 0xBC, 0xD0, 0xB8, 0xD1, 0x80, 0xD1, 0x83] = 8
   \<and> map_option Script
       (EncodingDetector guessJP_unknown [0xD0, 0xBC, 0xD0, 0xB8, 0xD1, 0x80, 0xD1, 0x83]
          None_script) = Some WesternEuropean
   \<and> automaticDetectionForCyrillic [0xD0, 0xBC, 0xD0, 0xB8, 0xD1, 0x80, 0xD1, 0x83]
       = Some ''''"
  by (simp add: high_bit_count_def eval_defs)



text \<open>
  C9. On the empty buffer \<open>IsText\<close> is true and the classifier answers \<open>us-ascii\<close>,
  source default, not binary, for every hint; and every input gets a result (no read of
  the classifier is out of range).
\<close>

theorem C9_empty_buffer:
  "IsText [] = True
   \<and> EncodingDetector guessJP [] scriptHint =
       Some \<lparr>Encoding = ''us-ascii'', Source = DefaultEncoding, Script = None_script,
             IsBinary = False\<rparr>
   \<and> (\<exists>r. EncodingDetector guessJP data scriptHint = Some r)"
  using EncodingDetector_returns [of guessJP data scriptHint]
  by (auto simp: IsText_def EncodingDetector_def)

text \<open>
  C10, as the code has it. The loop of the Cyrillic heuristic always stops at
  \<open>min (len, 1000)\<close>, and the answer depends only on the bytes at the indices 0 to
  \<open>min (len, 1000) - 1\<close>: two samples with the same first 1000 bytes get the same
  answer. The byte at index 0 is counted in no bucket, and it changes no
  answer unless the byte at index 1 is \<open>0xf2\<close> or \<open>0xd4\<close>, the second halves of the two
  pair markers, whose first half the loop then reads at index 0.
\<close>

theorem C10_cyrillic_window:
  "cyr_limit ptr = min (int (length ptr)) 1000
   \<and> (take 1000 a = take 1000 b \<longrightarrow>
      automaticDetectionForCyrillic a = automaticDetectionForCyrillic b)
   \<and> map_option cyr_buckets (cyr_loop (x # xs) (cyr_limit (x # xs)) 1 cyr_zero)
     = map_option cyr_buckets (cyr_loop (y # xs) (cyr_limit (y # xs)) 1 cyr_zero)
   \<and> ((case xs of [] \<Rightarrow> True | p # ps \<Rightarrow> p \<noteq> 0xf2 \<and> p \<noteq> 0xd4) \<longrightarrow>
      automaticDetectionForCyrillic (x # xs) = automaticDetectionForCyrillic (y # xs))"
  using cyr_limit_eq [of ptr] cyrillic_window [of a b] cyrillic_buckets_first [of x xs y]
    cyrillic_first_byte [of xs x y]
  by blast

theorem C10_cyrillic_window_witness:
  "take 1000 (replicate 1000 0xe0 @ [0xee]) = take 1000 (replicate 1000 0xe0 @ [0xcf, 0xcf])
   \<and> automaticDetectionForCyrillic (replicate 1000 0xe0 @ [0xee])
     = automaticDetectionForCyrillic (replicate 1000 0xe0 @ [0xcf, 0xcf])
   \<and> automaticDetectionForCyrillic [0xf1, 0xe0, 0xf2]
     = automaticDetectionForCyrillic [0x41, 0xe0, 0xf2]"
  using C10_cyrillic_window [where a = "replicate 1000 0xe0 @ [0xee]"
      and b = "replicate 1000 0xe0 @ [0xcf, 0xcf]" and x = "0xf1" and xs = "[0xe0, 0xf2]"
      and y = "0x41"]
  by simp

text \<open>
  The claim as it is written, with the indices from 1, fails: the two samples below agree
  at every index from 1 on and differ at index 0, where the first holds the \<open>0xf1\<close> that
  makes a second \<open>f1 f2\<close> pair and with it the bonus of 10 for cp1251.
\<close>

theorem C10_first_byte_counterexample:
  "automaticDetectionForCyrillic [0xf1, 0xf2, 0xf1, 0xf2, 0xcf, 0xe0, 0xe0, 0xe0, 0xe0, 0xe0]
     = Some ''cp1251''
   \<and> automaticDetectionForCyrillic [0x41, 0xf2, 0xf1, 0xf2, 0xcf, 0xe0, 0xe0, 0xe0, 0xe0, 0xe0]
     = Some ''koi8-u''"
  by (simp add: eval_defs)

end
